theory Spec2Isabelle
  imports Main
begin

section \<open>Events\<close>

text \<open>
  Values of type \<open>unknown\<close> in payloads and metadata; a \<open>Record<string, unknown>\<close> is an
  association list (insertion order is kept, as in the source's object literals).
\<close>

datatype jsval = JStr string | JNum int | JBool bool

type_synonym jsrecord = "(string \<times> jsval) list"

text \<open>\<open>interface DispatchedEvent\<close> (types.ts).\<close>

record DispatchedEvent =
  key :: string
  area :: string
  eventName :: string
  payload :: jsrecord
  timestamp :: int
  metadata :: jsrecord

section \<open>ConsentManager (consent.ts)\<close>

text \<open>
  \<open>type ConsentCategory = 'analytics' | 'marketing' | 'functional' | 'necessary'\<close>; the
  state is indexed by the category's string. An object used as a \<open>Record\<close> is the map of
  its own properties (a key such as \<open>constructor\<close>, which every object inherits, is not
  looked at).
\<close>

datatype ConsentCategory = Analytics | Marketing | Functional | Necessary

fun category_name :: "ConsentCategory \<Rightarrow> string" where
  "category_name Analytics = ''analytics''"
| "category_name Marketing = ''marketing''"
| "category_name Functional = ''functional''"
| "category_name Necessary = ''necessary''"

type_synonym ConsentState = "string \<rightharpoonup> bool"

record ConsentConfig =
  defaultState :: "ConsentState option"
  cfg_mapping :: "(string \<rightharpoonup> ConsentCategory) option"
  cfg_defaultCategory :: "ConsentCategory option"

record ConsentManager =
  state :: ConsentState
  mapping :: "string \<rightharpoonup> ConsentCategory"
  defaultCategory :: ConsentCategory

text \<open>The object literal \<open>{necessary: true, analytics: false, marketing: false, functional: false}\<close>.\<close>

definition base_state :: ConsentState where
  "base_state =
     [''necessary'' \<mapsto> True, ''analytics'' \<mapsto> False, ''marketing'' \<mapsto> False,
      ''functional'' \<mapsto> False]"

text \<open>
  The constructor: the spread \<open>...config?.defaultState\<close> overrides the base entries,
  \<open>??\<close> supplies the defaults.
\<close>

definition new_ConsentManager :: "ConsentConfig option \<Rightarrow> ConsentManager" where
  "new_ConsentManager config =
     \<lparr> state = base_state ++
         (case Option.bind config defaultState of None \<Rightarrow> Map.empty | Some ds \<Rightarrow> ds),
       mapping = (case Option.bind config cfg_mapping of None \<Rightarrow> Map.empty | Some m \<Rightarrow> m),
       defaultCategory =
         (case Option.bind config cfg_defaultCategory of None \<Rightarrow> Analytics | Some c \<Rightarrow> c) \<rparr>"

text \<open>
  JavaScript truthiness of \<open>this.mapping[k]\<close>: \<open>undefined\<close> (no entry) is falsy, a string
  is truthy unless it is empty.
\<close>

fun truthy :: "ConsentCategory option \<Rightarrow> bool" where
  "truthy None = False"
| "truthy (Some c) = (category_name c \<noteq> [])"

definition getCategory :: "ConsentManager \<Rightarrow> DispatchedEvent \<Rightarrow> ConsentCategory" where
  "getCategory cm event =
     (if truthy (mapping cm (key event)) then the (mapping cm (key event))
      else if truthy (mapping cm (area event)) then the (mapping cm (area event))
      else let wildcardKey = area event @ ''::*'' in
        if truthy (mapping cm wildcardKey) then the (mapping cm wildcardKey)
        else defaultCategory cm)"

text \<open>\<open>this.state[category] === true\<close>: a missing entry is \<open>undefined\<close>, which is not \<open>true\<close>.\<close>

definition isAllowed :: "ConsentManager \<Rightarrow> DispatchedEvent \<Rightarrow> bool" where
  "isAllowed cm event = (state cm (category_name (getCategory cm event)) = Some True)"

text \<open>\<open>Object.assign(this.state, partial)\<close>.\<close>

definition update :: "ConsentManager \<Rightarrow> ConsentState \<Rightarrow> ConsentManager" where
  "update cm partial = cm\<lparr>state := state cm ++ partial\<rparr>"

definition getState :: "ConsentManager \<Rightarrow> ConsentState" where
  "getState cm = state cm"

section \<open>EventQueue (queue.ts)\<close>

record QueueConfig =
  enabled :: "bool option"
  cfg_maxSize :: "int option"
  cfg_flushInterval :: "int option"

text \<open>
  The queue's fields. \<open>timer\<close> is \<open>True\<close> while an interval timer is installed. The
  release callback \<open>onFlush\<close> is not stored: every operation returns, beside the new queue,
  the batches it handed to \<open>onFlush\<close> before returning, in call order.
\<close>

record EventQueue =
  queue :: "DispatchedEvent list"
  timer :: bool
  maxSize :: int
  flushInterval :: int

definition new_EventQueue :: "QueueConfig \<Rightarrow> EventQueue" where
  "new_EventQueue config =
     (let ms = (case cfg_maxSize config of None \<Rightarrow> 10 | Some n \<Rightarrow> n);
          fi = (case cfg_flushInterval config of None \<Rightarrow> 5000 | Some n \<Rightarrow> n)
      in \<lparr> queue = [], timer = (fi > 0), maxSize = ms, flushInterval = fi \<rparr>)"

text \<open>
  \<open>flush\<close> is an \<open>async\<close> function: its body runs inside the caller up to the first
  \<open>await\<close>, so \<open>splice(0)\<close> and the call \<open>this.onFlush(batch)\<close> happen before \<open>flush()\<close>
  returns its promise.
\<close>

definition flush :: "EventQueue \<Rightarrow> EventQueue \<times> DispatchedEvent list list" where
  "flush q =
     (if length (queue q) = 0 then (q, [])
      else let batch = queue q in (q\<lparr>queue := []\<rparr>, [batch]))"

definition push :: "EventQueue \<Rightarrow> DispatchedEvent \<Rightarrow> EventQueue \<times> DispatchedEvent list list" where
  "push q event =
     (let q1 = q\<lparr>queue := queue q @ [event]\<rparr>
      in if int (length (queue q1)) \<ge> maxSize q1 then flush q1 else (q1, []))"

definition destroy :: "EventQueue \<Rightarrow> EventQueue \<times> DispatchedEvent list list" where
  "destroy q =
     (let q1 = (if timer q then q\<lparr>timer := False\<rparr> else q) in flush q1)"

text \<open>The interval callback \<open>() => this.flush()\<close>; it only runs while the timer is installed.\<close>

definition timer_fire :: "EventQueue \<Rightarrow> EventQueue \<times> DispatchedEvent list list" where
  "timer_fire q = (if timer q then flush q else (q, []))"

text \<open>
  What a client can do to a queue between two observations, and a run of such operations;
  the released batches are collected in call order.
\<close>

datatype queue_op = Push DispatchedEvent | TimerFire | Flush | Destroy

fun queue_step :: "EventQueue \<Rightarrow> queue_op \<Rightarrow> EventQueue \<times> DispatchedEvent list list" where
  "queue_step q (Push e) = push q e"
| "queue_step q TimerFire = timer_fire q"
| "queue_step q Flush = flush q"
| "queue_step q Destroy = destroy q"

fun queue_run :: "EventQueue \<Rightarrow> queue_op list \<Rightarrow> EventQueue \<times> DispatchedEvent list list" where
  "queue_run q [] = (q, [])"
| "queue_run q (c # cs) =
     (let (q1, out1) = queue_step q c; (q2, out2) = queue_run q1 cs in (q2, out1 @ out2))"

fun pushed :: "queue_op list \<Rightarrow> DispatchedEvent list" where
  "pushed [] = []"
| "pushed (Push e # cs) = e # pushed cs"
| "pushed (_ # cs) = pushed cs"

section \<open>Dispatcher (dispatcher.ts)\<close>

text \<open>
  \<open>type Middleware = (event, next) => void\<close>. A middleware is modelled by what it does with
  its continuation: the events it passes to \<open>next\<close>, one entry per call, in call order, all
  made before the middleware returns (the contract of the repository's own middleware). The
  empty list is a middleware that declines; two entries are two calls of \<open>next\<close>. A
  middleware that throws, or that calls \<open>next\<close> from a later task, is not covered.
\<close>

type_synonym Middleware = "DispatchedEvent \<Rightarrow> DispatchedEvent list"

text \<open>
  The variables of one \<open>runMiddleware\<close> call: \<open>resolved\<close> and \<open>index\<close> are the closure's
  variables; \<open>resolveCalls\<close> lists the arguments of every call of the promise's \<open>resolve\<close>
  (\<open>None\<close> is \<open>resolve(null)\<close>), \<open>invoked\<close> every middleware invocation with the position
  and the event it was given.
\<close>

record ChainState =
  resolved :: bool
  index :: nat
  resolveCalls :: "DispatchedEvent option list"
  invoked :: "(nat \<times> DispatchedEvent) list"

text \<open>
  \<open>next_call\<close> is the closure \<open>next\<close>; \<open>run_body\<close> runs a middleware's body, that is its
  calls of \<open>next\<close> in order, each call running to completion (and through every middleware
  it invokes in turn) before the following one.
\<close>

function next_call :: "Middleware list \<Rightarrow> DispatchedEvent \<Rightarrow> ChainState \<Rightarrow> ChainState"
  and run_body :: "Middleware list \<Rightarrow> DispatchedEvent list \<Rightarrow> ChainState \<Rightarrow> ChainState"
where
  "next_call chain e s =
     (if resolved s then s
      else let s1 = s\<lparr>index := index s + 1\<rparr> in
        if index s1 \<ge> length chain
        then s1\<lparr>resolved := True, resolveCalls := resolveCalls s1 @ [Some e]\<rparr>
        else run_body chain ((chain ! index s1) e)
               (s1\<lparr>invoked := invoked s1 @ [(index s1, e)]\<rparr>))"
| "run_body chain [] s = s"
| "run_body chain (e # es) s = run_body chain es (next_call chain e s)"
  by pat_completeness auto

text \<open>The recursion is nested; termination needs that \<open>index\<close> never decreases.\<close>

lemma index_mono_dom:
  "next_call_run_body_dom (Inl (chain, e, s)) \<Longrightarrow> index s \<le> index (next_call chain e s)"
  "next_call_run_body_dom (Inr (chain, es, s)) \<Longrightarrow> index s \<le> index (run_body chain es s)"
proof (induction chain e s and chain es s rule: next_call_run_body.pinduct)
  case (1 chain e s)
  then show ?case
    by (auto simp: next_call.psimps Let_def)
next
  case (2 chain s)
  then show ?case by (simp add: run_body.psimps)
next
  case (3 chain e es s)
  then show ?case by (simp add: run_body.psimps)
qed

termination next_call
proof (relation "measures
    [\<lambda>x. case x of Inl (chain, e, s) \<Rightarrow> length chain - index s
                  | Inr (chain, es, s) \<Rightarrow> length chain - index s,
     \<lambda>x. case x of Inl (chain, e, s) \<Rightarrow> 0 | Inr (chain, es, s) \<Rightarrow> Suc (length es)]",
    goal_cases)
  case 1
  show ?case by simp
next
  case (2 chain e s x)
  then show ?case by auto
next
  case (3 chain e es s)
  then show ?case by simp
next
  case (4 chain e es s)
  from index_mono_dom(1) [OF 4] have "index s \<le> index (next_call chain e s)" .
  then show ?case by auto
qed

text \<open>
  \<open>runMiddleware\<close>: an empty chain resolves with the event at once; otherwise the chain is
  started at position 0 and, after the current call stack, the \<open>setTimeout(..., 0)\<close> callback
  resolves with \<open>null\<close> when \<open>!resolved && index === 0\<close>. The result is the state after that
  callback, when nothing is left to run.
\<close>

definition runMiddleware :: "Middleware list \<Rightarrow> DispatchedEvent \<Rightarrow> ChainState" where
  "runMiddleware chain event =
     (let s0 = \<lparr> resolved = False, index = 0, resolveCalls = [], invoked = [] \<rparr> in
      if length chain = 0 then s0\<lparr>resolveCalls := [Some event]\<rparr>
      else
        let s1 = run_body chain ((chain ! 0) event) (s0\<lparr>invoked := [(0, event)]\<rparr>) in
        if \<not> resolved s1 \<and> index s1 = 0
        then s1\<lparr>resolved := True, resolveCalls := resolveCalls s1 @ [None]\<rparr>
        else s1)"

text \<open>
  The value of the promise: a promise takes the argument of the first call of \<open>resolve\<close>;
  without any call it stays pending for ever (\<open>None\<close>).
\<close>

definition resolution :: "ChainState \<Rightarrow> DispatchedEvent option option" where
  "resolution s = (case resolveCalls s of [] \<Rightarrow> None | r # _ \<Rightarrow> Some r)"

text \<open>
  How a \<open>Promise<void>\<close> ends: it never settles, it is fulfilled at a tick, or it is
  rejected at a tick with an error message. Ticks count logical time from the call. For an
  adapter method awaited inside \<open>try\<close>, a value returned at once is \<open>Ok 0\<close> and a
  synchronous \<open>throw\<close> is \<open>Fails 0\<close>.
\<close>

datatype Settled = Never | Ok nat | Fails nat string

text \<open>
  \<open>interface Adapter\<close>, with the methods the dispatcher calls. The lifecycle hooks
  \<open>init\<close> and \<open>destroy\<close> are left out: no statement below is about them.
\<close>

record Adapter =
  name :: string
  send :: "DispatchedEvent \<Rightarrow> Settled"
  sendBatch :: "(DispatchedEvent list \<Rightarrow> Settled) option"

record Dispatcher =
  adapters :: "Adapter list"
  middlewareChain :: "Middleware list"

datatype AdapterCall = Send DispatchedEvent | SendBatch "DispatchedEvent list"

type_synonym CallRecord = "string \<times> AdapterCall \<times> Settled"

text \<open>
  \<open>Promise.all\<close> over promises of no value: it is rejected with the reason of the first
  promise to be rejected (the earliest tick; among equal ticks the first in the array),
  whatever the others do; without a rejection it is fulfilled once all are, and pending if
  one stays pending.
\<close>

fun first_failure :: "Settled list \<Rightarrow> (nat \<times> string) option" where
  "first_failure [] = None"
| "first_failure (Fails t m # ps) =
     (case first_failure ps of
        None \<Rightarrow> Some (t, m)
      | Some (t', m') \<Rightarrow> if t' < t then Some (t', m') else Some (t, m))"
| "first_failure (_ # ps) = first_failure ps"

fun settle_time :: "Settled \<Rightarrow> nat" where
  "settle_time Never = 0"
| "settle_time (Ok t) = t"
| "settle_time (Fails t m) = t"

definition Promise_all :: "Settled list \<Rightarrow> Settled" where
  "Promise_all ps =
     (case first_failure ps of
        Some (t, m) \<Rightarrow> Fails t m
      | None \<Rightarrow> if Never \<in> set ps then Never else Ok (fold max (map settle_time ps) 0))"

text \<open>
  \<open>catch (err) { throw new Error(`Adapter "${adapter.name}" error: ${err.message}`) }\<close>
  around the awaited call: a rejection is replaced by one with the new message.
\<close>

definition rethrow :: "(string \<Rightarrow> string) \<Rightarrow> Settled \<Rightarrow> Settled" where
  "rethrow f p = (case p of Fails t m \<Rightarrow> Fails t (f m) | _ \<Rightarrow> p)"

definition send_error :: "string \<Rightarrow> string \<Rightarrow> string" where
  "send_error n m = ''Adapter \"'' @ n @ ''\" error: '' @ m"

definition batch_error :: "string \<Rightarrow> string \<Rightarrow> string" where
  "batch_error n m = ''Adapter \"'' @ n @ ''\" batch error: '' @ m"

text \<open>
  What a dispatch does: how the returned promise ends, the adapter methods it called (adapter
  name, call, and how that call ended) and the middleware invocations it made.
\<close>

record DispatchResult =
  outcome :: Settled
  adapterCalls :: "CallRecord list"
  middlewareCalls :: "(nat \<times> DispatchedEvent) list"

text \<open>
  \<open>dispatch\<close>: while \<open>runMiddleware\<close> is pending the function never continues; \<open>null\<close>
  returns; otherwise \<open>map\<close> starts the \<open>async\<close> callback of every adapter, each calling
  \<open>adapter.send(finalEvent)\<close> before its first \<open>await\<close>, and \<open>Promise.all\<close> is awaited.
\<close>

definition dispatch :: "Dispatcher \<Rightarrow> DispatchedEvent \<Rightarrow> DispatchResult" where
  "dispatch d event =
     (let c = runMiddleware (middlewareChain d) event in
      case resolution c of
        None \<Rightarrow> \<lparr> outcome = Never, adapterCalls = [], middlewareCalls = invoked c \<rparr>
      | Some None \<Rightarrow> \<lparr> outcome = Ok 0, adapterCalls = [], middlewareCalls = invoked c \<rparr>
      | Some (Some finalEvent) \<Rightarrow>
          let tasks = map (\<lambda>adapter. (name adapter, Send finalEvent, send adapter finalEvent))
                        (adapters d)
          in \<lparr> outcome = Promise_all (map (\<lambda>(n, call, r). rethrow (send_error n) r) tasks),
               adapterCalls = tasks, middlewareCalls = invoked c \<rparr>)"

text \<open>
  The loop of \<open>dispatchBatch\<close> over the events: each \<open>runMiddleware\<close> is awaited, so a
  pending one stops the loop for ever (\<open>None\<close>); otherwise the surviving events are
  collected in order.
\<close>

fun process_batch ::
  "Middleware list \<Rightarrow> DispatchedEvent list \<Rightarrow>
     DispatchedEvent list option \<times> (nat \<times> DispatchedEvent) list" where
  "process_batch chain [] = (Some [], [])"
| "process_batch chain (event # events) =
     (let c = runMiddleware chain event in
      case resolution c of
        None \<Rightarrow> (None, invoked c)
      | Some result \<Rightarrow>
          (let (rest, log) = process_batch chain events
           in (map_option (\<lambda>es. (case result of None \<Rightarrow> [] | Some e \<Rightarrow> [e]) @ es) rest,
               invoked c @ log)))"

text \<open>
  The fallback \<open>for (const event of processed) await adapter.send(event)\<close>, started at tick
  \<open>t\<close>: the first send that fails or never settles ends the loop.
\<close>

fun send_each :: "Adapter \<Rightarrow> DispatchedEvent list \<Rightarrow> nat \<Rightarrow> CallRecord list \<times> Settled" where
  "send_each adapter [] t = ([], Ok t)"
| "send_each adapter (event # events) t =
     (case send adapter event of
        Ok dt \<Rightarrow> (let (calls, r) = send_each adapter events (t + dt)
                  in ((name adapter, Send event, Ok dt) # calls, r))
      | Fails dt m \<Rightarrow> ([(name adapter, Send event, Fails dt m)], Fails (t + dt) m)
      | Never \<Rightarrow> ([(name adapter, Send event, Never)], Never))"

definition batch_task :: "Adapter \<Rightarrow> DispatchedEvent list \<Rightarrow> CallRecord list \<times> Settled" where
  "batch_task adapter processed =
     (let (calls, r) =
        (case sendBatch adapter of
           Some f \<Rightarrow> ([(name adapter, SendBatch processed, f processed)], f processed)
         | None \<Rightarrow> send_each adapter processed 0)
      in (calls, rethrow (batch_error (name adapter)) r))"

definition dispatchBatch :: "Dispatcher \<Rightarrow> DispatchedEvent list \<Rightarrow> DispatchResult" where
  "dispatchBatch d events =
     (case process_batch (middlewareChain d) events of
        (None, log) \<Rightarrow> \<lparr> outcome = Never, adapterCalls = [], middlewareCalls = log \<rparr>
      | (Some processed, log) \<Rightarrow>
          if length processed = 0
          then \<lparr> outcome = Ok 0, adapterCalls = [], middlewareCalls = log \<rparr>
          else let tasks = map (\<lambda>adapter. batch_task adapter processed) (adapters d)
               in \<lparr> outcome = Promise_all (map snd tasks),
                    adapterCalls = concat (map fst tasks), middlewareCalls = log \<rparr>)"

section \<open>Tracker (tracker.ts)\<close>

text \<open>
  A catalog entry (\<open>TrackingEvent\<close>): its key and its payload builder, which may throw
  (\<open>Inl\<close> with the message). \<open>params\<close> is \<open>None\<close> when the method is called without
  argument.
\<close>

record TrackingEvent =
  tkey :: string
  buildPayload :: "jsrecord option \<Rightarrow> string + jsrecord"

type_synonym EventsMap = "string \<rightharpoonup> (string \<rightharpoonup> TrackingEvent)"

record TrackerConfig =
  cfg_events :: EventsMap
  cfg_adapters :: "Adapter list"
  cfg_middleware :: "Middleware list option"
  cfg_consent :: "ConsentConfig option"
  cfg_queue :: "QueueConfig option"
  cfg_globalMetadata :: "jsrecord option"

text \<open>
  The closure of \<open>createTracker\<close>: the subsystems and \<open>globalMetadata\<close>, together with
  what the tracker has done to the outside so far: the calls of \<open>onError\<close> (message and
  event, if passed), the promise rejections nobody handles, the adapter methods called and the
  middleware invoked. Each operation below is followed until nothing is left to run.
\<close>

record Tracker =
  events :: EventsMap
  consentManager :: ConsentManager
  dispatcher :: Dispatcher
  eventQueue :: "EventQueue option"
  globalMetadata :: jsrecord
  onErrorCalls :: "(string \<times> DispatchedEvent option) list"
  unhandledRejections :: "string list"
  adapterLog :: "CallRecord list"
  middlewareLog :: "(nat \<times> DispatchedEvent) list"

definition createTracker :: "TrackerConfig \<Rightarrow> Tracker" where
  "createTracker config =
     \<lparr> events = cfg_events config,
       consentManager = new_ConsentManager (cfg_consent config),
       dispatcher = \<lparr> adapters = cfg_adapters config,
         middlewareChain = (case cfg_middleware config of None \<Rightarrow> [] | Some m \<Rightarrow> m) \<rparr>,
       eventQueue =
         (case cfg_queue config of
            None \<Rightarrow> None
          | Some queueConfig \<Rightarrow>
              if enabled queueConfig = Some True then Some (new_EventQueue queueConfig) else None),
       globalMetadata = (case cfg_globalMetadata config of None \<Rightarrow> [] | Some g \<Rightarrow> g),
       onErrorCalls = [], unhandledRejections = [], adapterLog = [], middlewareLog = [] \<rparr>"

text \<open>The effects of a dispatch, added to the tracker's record of them.\<close>

definition record_result :: "Tracker \<Rightarrow> DispatchResult \<Rightarrow> Tracker" where
  "record_result t r =
     t\<lparr> adapterLog := adapterLog t @ adapterCalls r,
        middlewareLog := middlewareLog t @ middlewareCalls r \<rparr>"

text \<open>The release callback given to the queue: \<open>(batch) => dispatcher.dispatchBatch(batch)\<close>.\<close>

definition onFlush :: "Tracker \<Rightarrow> DispatchedEvent list \<Rightarrow> Tracker \<times> Settled" where
  "onFlush t batch =
     (let r = dispatchBatch (dispatcher t) batch in (record_result t r, outcome r))"

text \<open>
  The promise \<open>flush()\<close> returns, given the batches the queue operation released (at most
  one): without a batch it is fulfilled, with one it ends as \<open>onFlush(batch)\<close> does.
\<close>

definition flush_promise :: "Tracker \<Rightarrow> DispatchedEvent list list \<Rightarrow> Tracker \<times> Settled" where
  "flush_promise t batches = (case batches of [] \<Rightarrow> (t, Ok 0) | batch # _ \<Rightarrow> onFlush t batch)"

text \<open>
  A promise whose result nobody takes (the call \<open>this.flush()\<close> in \<open>push\<close> and in the
  interval callback): its rejection is an unhandled rejection.
\<close>

definition discard_promise :: "Tracker \<Rightarrow> Settled \<Rightarrow> Tracker" where
  "discard_promise t p =
     (case p of
        Fails _ m \<Rightarrow> t\<lparr>unhandledRejections := unhandledRejections t @ [m]\<rparr>
      | _ \<Rightarrow> t)"

text \<open>The object literal at the head of \<open>dispatchEvent\<close>; \<open>now\<close> is the value of \<open>Date.now()\<close>.\<close>

definition make_event ::
  "Tracker \<Rightarrow> int \<Rightarrow> string \<Rightarrow> string \<Rightarrow> string \<Rightarrow> jsrecord \<Rightarrow> DispatchedEvent" where
  "make_event t now k a n p =
     \<lparr> key = k, area = a, eventName = n, payload = p, timestamp = now,
       metadata = globalMetadata t \<rparr>"

definition dispatchEvent ::
  "Tracker \<Rightarrow> int \<Rightarrow> string \<Rightarrow> string \<Rightarrow> string \<Rightarrow> jsrecord \<Rightarrow> Tracker" where
  "dispatchEvent t now k a n p =
     (let event = make_event t now k a n p in
      if \<not> isAllowed (consentManager t) event then t
      else
        case eventQueue t of
          Some q \<Rightarrow>
            (let (q1, batches) = push q event;
                 (t1, flushed) = flush_promise (t\<lparr>eventQueue := Some q1\<rparr>) batches
             in discard_promise t1 flushed)
        | None \<Rightarrow>
            (let r = dispatch (dispatcher t) event; t1 = record_result t r in
             case outcome r of
               Fails _ m \<Rightarrow> t1\<lparr>onErrorCalls := onErrorCalls t1 @ [(m, Some event)]\<rparr>
             | _ \<Rightarrow> t1))"

text \<open>
  A method call \<open>tracker[areaProp][eventProp](params)\<close> through the two proxies. Control
  methods take priority over areas; where no method is found the result is \<open>None\<close> (the
  caller reads \<open>undefined\<close>) and the tracker has done nothing.
\<close>

definition control_names :: "string list" where
  "control_names = [''setConsent'', ''getConsent'', ''flush'', ''destroy'', ''setGlobalMetadata'']"

definition emit :: "Tracker \<Rightarrow> int \<Rightarrow> string \<Rightarrow> string \<Rightarrow> jsrecord option \<Rightarrow> Tracker option" where
  "emit t now areaProp eventProp params =
     (if areaProp \<in> set control_names then None
      else case events t areaProp of
        None \<Rightarrow> None
      | Some areaEvents \<Rightarrow>
          (case areaEvents eventProp of
             None \<Rightarrow> None
           | Some eventDef \<Rightarrow>
               Some (case buildPayload eventDef params of
                       Inl err \<Rightarrow> t\<lparr>onErrorCalls := onErrorCalls t @ [(err, None)]\<rparr>
                     | Inr p \<Rightarrow> dispatchEvent t now (tkey eventDef) areaProp eventProp p)))"

definition setConsent :: "Tracker \<Rightarrow> ConsentState \<Rightarrow> Tracker" where
  "setConsent t st = t\<lparr>consentManager := update (consentManager t) st\<rparr>"

definition getConsent :: "Tracker \<Rightarrow> ConsentState" where
  "getConsent t = getState (consentManager t)"

text \<open>\<open>tracker.flush()\<close>: the promise of \<open>queue.flush()\<close> is awaited and goes to the caller.\<close>

definition tracker_flush :: "Tracker \<Rightarrow> Tracker \<times> Settled" where
  "tracker_flush t =
     (case eventQueue t of
        None \<Rightarrow> (t, Ok 0)
      | Some q \<Rightarrow> (let (q1, batches) = flush q in flush_promise (t\<lparr>eventQueue := Some q1\<rparr>) batches))"

text \<open>The interval callback of the tracker's queue.\<close>

definition tracker_timer :: "Tracker \<Rightarrow> Tracker" where
  "tracker_timer t =
     (case eventQueue t of
        None \<Rightarrow> t
      | Some q \<Rightarrow>
          (let (q1, batches) = timer_fire q;
               (t1, flushed) = flush_promise (t\<lparr>eventQueue := Some q1\<rparr>) batches
           in discard_promise t1 flushed))"

section \<open>Notions used in the statements\<close>


text \<open>The errors a caller finds in a settled promise: the one reason of a rejection.\<close>

definition reported_errors :: "Settled \<Rightarrow> string list" where
  "reported_errors p = (case p of Fails t m \<Rightarrow> [m] | _ \<Rightarrow> [])"

text \<open>Where a tracker's failures went: the calls of \<open>onError\<close> and the unhandled rejections.\<close>

definition effects :: "Tracker \<Rightarrow> (string \<times> DispatchedEvent option) list \<times> string list" where
  "effects t = (onErrorCalls t, unhandledRejections t)"








section \<open>Sample inputs\<close>

text \<open>An event whose key follows the \<open>area::name\<close> convention, as the tests build them.\<close>

definition ev :: "string \<Rightarrow> string \<Rightarrow> DispatchedEvent" where
  "ev a n = \<lparr> key = a @ ''::'' @ n, area = a, eventName = n, payload = [], timestamp = 0,
     metadata = [] \<rparr>"

definition cfg_two :: QueueConfig where
  "cfg_two = \<lparr> enabled = Some True, cfg_maxSize = Some 2, cfg_flushInterval = Some 0 \<rparr>"


text \<open>Middleware that forwards, declines, and calls \<open>next\<close> twice; adapters that succeed or fail.\<close>

definition forward :: Middleware where "forward e = [e]"
definition decline :: Middleware where "decline e = []"
definition twice :: Middleware where "twice e = [e, e]"

text \<open>The filter of the tracker's tests: \<open>if (event.eventName !== 'logout') next(event)\<close>.\<close>

definition drop_logout :: Middleware where
  "drop_logout e = (if eventName e \<noteq> ''logout'' then [e] else [])"

definition ok_adapter :: "string \<Rightarrow> nat \<Rightarrow> Adapter" where
  "ok_adapter n t = \<lparr> name = n, send = (\<lambda>e. Ok t), sendBatch = None \<rparr>"
definition bad_adapter :: "string \<Rightarrow> nat \<Rightarrow> string \<Rightarrow> Adapter" where
  "bad_adapter n t m = \<lparr> name = n, send = (\<lambda>e. Fails t m), sendBatch = None \<rparr>"

text \<open>A tracker over the catalog of the tests, with analytics consent granted.\<close>

definition login_def :: TrackingEvent where
  "login_def =
     \<lparr> tkey = ''auth::login'',
       buildPayload = (\<lambda>params. Inr (case params of None \<Rightarrow> [] | Some ps \<Rightarrow> ps)) \<rparr>"

definition sample_config :: "Adapter list \<Rightarrow> Middleware list \<Rightarrow> QueueConfig option \<Rightarrow> TrackerConfig" where
  "sample_config as ms qc =
     \<lparr> cfg_events = [''auth'' \<mapsto> [''login'' \<mapsto> login_def]], cfg_adapters = as,
       cfg_middleware = Some ms,
       cfg_consent = Some \<lparr> defaultState = Some [''analytics'' \<mapsto> True], cfg_mapping = None,
         cfg_defaultCategory = None \<rparr>,
       cfg_queue = qc, cfg_globalMetadata = None \<rparr>"

definition cfg_one :: QueueConfig where
  "cfg_one = \<lparr> enabled = Some True, cfg_maxSize = Some 1, cfg_flushInterval = Some 5000 \<rparr>"

text \<open>Dispatchers whose adapters fail at different ticks, with and without middleware.\<close>

definition three_adapters :: Dispatcher where
  "three_adapters =
     \<lparr> adapters = [ok_adapter ''a'' 5, bad_adapter ''b'' 1 ''x'', bad_adapter ''c'' 2 ''y''],
       middlewareChain = [] \<rparr>"


definition fail_first :: Dispatcher where
  "fail_first = \<lparr> adapters = [bad_adapter ''b'' 0 ''x'', ok_adapter ''a'' 3], middlewareChain = [] \<rparr>"

text \<open>
  Trackers over one adapter whose \<open>send\<close> throws, with and without a queue, and the event
  their \<open>auth.login()\<close> creates at clock value 7.
\<close>

definition cfg_default :: QueueConfig where
  "cfg_default = \<lparr> enabled = Some True, cfg_maxSize = None, cfg_flushInterval = None \<rparr>"

definition login_event :: DispatchedEvent where
  "login_event = \<lparr> key = ''auth::login'', area = ''auth'', eventName = ''login'', payload = [],
     timestamp = 7, metadata = [] \<rparr>"

definition failing_batched :: "QueueConfig \<Rightarrow> Tracker" where
  "failing_batched qc = createTracker (sample_config [bad_adapter ''a'' 0 ''boom''] [] (Some qc))"

definition failing_direct :: Tracker where
  "failing_direct = createTracker (sample_config [bad_adapter ''a'' 0 ''boom''] [] None)"

text \<open>A tracker whose analytics consent has been withdrawn.\<close>

definition denied_tracker :: Tracker where
  "denied_tracker =
     setConsent (createTracker (sample_config [ok_adapter ''a'' 0] [forward] None))
       [''analytics'' \<mapsto> False]"



section \<open>Consent resolution\<close>





section \<open>The queue\<close>

lemma flush_off:
  "pushed cs = [] \<Longrightarrow> \<forall>c\<in>set cs. c = TimerFire \<or> (\<exists>e. c = Push e) \<Longrightarrow> timer q = False \<Longrightarrow>
   queue_run q cs = (q, [])"
  by (induction cs arbitrary: q) (auto simp: timer_fire_def)

lemma run_below:
  "timer q = False \<Longrightarrow> \<forall>c\<in>set cs. c = TimerFire \<or> (\<exists>e. c = Push e) \<Longrightarrow>
   int (length (queue q) + length (pushed cs)) < maxSize q \<Longrightarrow>
   queue_run q cs = (q\<lparr>queue := queue q @ pushed cs\<rparr>, [])"
proof (induction cs arbitrary: q)
  case Nil
  then show ?case by simp
next
  case (Cons c cs)
  show ?case
  proof (cases c)
    case (Push e)
    let ?q1 = "q\<lparr>queue := queue q @ [e]\<rparr>"
    from Cons.prems Push have p: "push q e = (?q1, [])"
      by (simp add: push_def Let_def)
    have "queue_run ?q1 cs = (?q1\<lparr>queue := queue ?q1 @ pushed cs\<rparr>, [])"
      using Cons.prems Push by (intro Cons.IH) auto
    with p Push show ?thesis by simp
  next
    case TimerFire
    with Cons show ?thesis by (simp add: timer_fire_def)
  qed (use Cons.prems in auto)
qed

lemma run_reach:
  "timer q = False \<Longrightarrow> \<forall>c\<in>set cs. c = TimerFire \<or> (\<exists>e. c = Push e) \<Longrightarrow>
   pushed cs \<noteq> [] \<Longrightarrow>
   int (length (queue q) + length (pushed cs)) = maxSize q \<Longrightarrow>
   queue_run q cs = (q\<lparr>queue := []\<rparr>, [queue q @ pushed cs])"
proof (induction cs arbitrary: q)
  case Nil
  then show ?case by simp
next
  case (Cons c cs)
  show ?case
  proof (cases c)
    case (Push e)
    let ?q1 = "q\<lparr>queue := queue q @ [e]\<rparr>"
    show ?thesis
    proof (cases "pushed cs = []")
      case True
      with Cons.prems Push have p: "push q e = (q\<lparr>queue := []\<rparr>, [queue q @ [e]])"
        by (simp add: push_def Let_def flush_def)
      have "queue_run (q\<lparr>queue := []\<rparr>) cs = (q\<lparr>queue := []\<rparr>, [])"
        using Cons.prems True by (intro flush_off) auto
      with p Push True show ?thesis by simp
    next
      case False
      then have "0 < int (length (pushed cs))" by simp
      moreover have "int (length (queue q)) + 1 + int (length (pushed cs)) = maxSize q"
        using Cons.prems(4) Push by simp
      ultimately have "\<not> maxSize q \<le> 1 + int (length (queue q))" by linarith
      then have p: "push q e = (?q1, [])"
        by (simp add: push_def Let_def)
      have "queue_run ?q1 cs = (?q1\<lparr>queue := []\<rparr>, [queue ?q1 @ pushed cs])"
        using Cons.prems Push False by (intro Cons.IH) auto
      with p Push show ?thesis by simp
    qed
  next
    case TimerFire
    with Cons show ?thesis by (simp add: timer_fire_def)
  qed (use Cons.prems in auto)
qed

lemma pushed_map_Push: "pushed (map Push es) = es"
  by (induction es) simp_all

lemma new_EventQueue_off:
  "cfg_flushInterval cfg = Some fi \<Longrightarrow> fi \<le> 0 \<Longrightarrow>
   timer (new_EventQueue cfg) = False \<and> queue (new_EventQueue cfg) = []"
  by (simp add: new_EventQueue_def Let_def)

text \<open>
  C8. On a fresh queue whose interval timer is disabled, \<open>maxSize\<close> pushes (with timer
  callbacks, were any to run, anywhere between them) hand exactly one batch to the release
  callback: the pushed events in push order. Nothing is released by the pushes before the
  last, and the release happens inside the push that reaches \<open>maxSize\<close>.
\<close>

theorem C8_push_maxSize_times:
  assumes off: "cfg_flushInterval cfg = Some fi" "fi \<le> 0"
    and size: "maxSize (new_EventQueue cfg) = int (length es)" "es \<noteq> []"
    and ops: "pushed ops = es" "\<forall>c\<in>set ops. c = TimerFire \<or> (\<exists>e. c = Push e)"
  shows "snd (queue_run (new_EventQueue cfg) ops) = [es]
     \<and> queue_run (new_EventQueue cfg) (map Push (butlast es)) =
         ((new_EventQueue cfg)\<lparr>queue := butlast es\<rparr>, [])
     \<and> snd (push ((new_EventQueue cfg)\<lparr>queue := butlast es\<rparr>) (last es)) = [es]"
proof -
  let ?q = "new_EventQueue cfg"
  from off have t: "timer ?q = False" and e: "queue ?q = []"
    using new_EventQueue_off by blast+
  have "queue_run ?q ops = (?q\<lparr>queue := []\<rparr>, [queue ?q @ pushed ops])"
    using t ops size e by (intro run_reach) simp_all
  then have a: "snd (queue_run ?q ops) = [es]"
    using e ops by simp
  have "queue_run ?q (map Push (butlast es)) =
      (?q\<lparr>queue := queue ?q @ pushed (map Push (butlast es))\<rparr>, [])"
    using t size e by (intro run_below) (auto simp: pushed_map_Push)
  then have b: "queue_run ?q (map Push (butlast es)) = (?q\<lparr>queue := butlast es\<rparr>, [])"
    using e by (simp add: pushed_map_Push)
  have "butlast es @ [last es] = es"
    using size(2) by simp
  then have c: "snd (push (?q\<lparr>queue := butlast es\<rparr>) (last es)) = [es]"
    using size by (simp add: push_def Let_def flush_def)
  from a b c show ?thesis by blast
qed

theorem C8_push_maxSize_times_witness:
  "snd (queue_run (new_EventQueue cfg_two)
          [Push (ev ''test'' ''1''), TimerFire, Push (ev ''test'' ''2'')])
     = [[ev ''test'' ''1'', ev ''test'' ''2'']]
   \<and> queue_run (new_EventQueue cfg_two) (map Push (butlast [ev ''test'' ''1'', ev ''test'' ''2''])) =
       ((new_EventQueue cfg_two)\<lparr>queue := butlast [ev ''test'' ''1'', ev ''test'' ''2'']\<rparr>, [])
   \<and> snd (push ((new_EventQueue cfg_two)\<lparr>queue := butlast [ev ''test'' ''1'', ev ''test'' ''2'']\<rparr>)
         (last [ev ''test'' ''1'', ev ''test'' ''2'']))
       = [[ev ''test'' ''1'', ev ''test'' ''2'']]"
proof -
  have h1: "cfg_flushInterval cfg_two = Some 0" and h2: "(0::int) \<le> 0"
    by (simp_all add: cfg_two_def)
  have h3: "maxSize (new_EventQueue cfg_two) = int (length [ev ''test'' ''1'', ev ''test'' ''2''])"
    by (simp add: cfg_two_def new_EventQueue_def)
  have h4: "[ev ''test'' ''1'', ev ''test'' ''2''] \<noteq> []" by simp
  have h5: "pushed [Push (ev ''test'' ''1''), TimerFire, Push (ev ''test'' ''2'')]
      = [ev ''test'' ''1'', ev ''test'' ''2'']" by simp
  have h6: "\<forall>c\<in>set [Push (ev ''test'' ''1''), TimerFire, Push (ev ''test'' ''2'')].
      c = TimerFire \<or> (\<exists>e. c = Push e)" by simp
  show ?thesis by (rule C8_push_maxSize_times [OF h1 h2 h3 h4 h5 h6])
qed






section \<open>The middleware chain\<close>

text \<open>
  \<open>next_call\<close> is unfolded by hand: each unfolding exposes another call of the chain.
\<close>

declare next_call.simps [simp del]



section \<open>Fan-out to the adapters\<close>

lemma first_failure_mem: "first_failure ps = Some (t, m) \<Longrightarrow> Fails t m \<in> set ps"
  by (induction ps arbitrary: t m rule: first_failure.induct)
    (auto split: option.splits if_splits)

lemma first_failure_None: "first_failure ps = None \<longleftrightarrow> (\<forall>t m. Fails t m \<notin> set ps)"
  by (induction ps rule: first_failure.induct) (auto split: option.splits if_splits)

lemma first_failure_least:
  "first_failure ps = Some (t, m) \<Longrightarrow> Fails t' m' \<in> set ps \<Longrightarrow> t \<le> t'"
  by (induction ps arbitrary: t m rule: first_failure.induct)
    (auto split: option.splits if_splits simp: first_failure_None dest: first_failure_mem)

lemma Promise_all_Fails:
  "Promise_all ps = Fails t m \<longleftrightarrow> first_failure ps = Some (t, m)"
  by (auto simp: Promise_all_def split: option.splits)

lemma fold_max_ge: "a \<le> fold max xs (a::nat)"
  by (induction xs arbitrary: a) (auto intro: order_trans [OF max.cobounded2])

lemma fold_max_mem: "x \<in> set xs \<Longrightarrow> x \<le> fold max xs (a::nat)"
proof (induction xs arbitrary: a)
  case Nil
  then show ?case by simp
next
  case (Cons y ys)
  show ?case
  proof (cases "x = y")
    case True
    have "y \<le> max y a" by simp
    also have "\<dots> \<le> fold max ys (max y a)" by (rule fold_max_ge)
    finally show ?thesis using True by simp
  next
    case False
    with Cons show ?thesis by simp
  qed
qed

lemma Promise_all_Ok:
  assumes "Promise_all ps = Ok T" and "p \<in> set ps"
  shows "\<exists>t\<le>T. p = Ok t"
proof -
  from assms(1) have ff: "first_failure ps = None" and nv: "Never \<notin> set ps"
    and T: "T = fold max (map settle_time ps) 0"
    by (auto simp: Promise_all_def split: option.splits if_splits)
  from ff assms(2) nv obtain t where p: "p = Ok t"
    by (cases p) (auto simp: first_failure_None)
  with assms(2) have "t \<in> set (map settle_time ps)" by force
  then have "t \<le> T" unfolding T by (rule fold_max_mem)
  with p show ?thesis by blast
qed

lemma Promise_all_all_Ok:
  assumes "\<forall>p\<in>set ps. \<exists>t. p = Ok t"
  shows "\<exists>T. Promise_all ps = Ok T"
proof -
  from assms have "first_failure ps = None" by (auto simp: first_failure_None)
  moreover from assms have "Never \<notin> set ps" by auto
  ultimately show ?thesis by (simp add: Promise_all_def)
qed

lemma rethrow_Fails:
  "rethrow f p = Fails t m \<longleftrightarrow> (\<exists>m'. p = Fails t m' \<and> m = f m')"
  by (cases p) (auto simp: rethrow_def)

lemma rethrow_Ok: "rethrow f p = Ok t \<longleftrightarrow> p = Ok t"
  by (cases p) (auto simp: rethrow_def)

lemma dispatch_passed:
  assumes "resolution (runMiddleware (middlewareChain d) e) = Some (Some e')"
  shows "adapterCalls (dispatch d e) = map (\<lambda>a. (name a, Send e', send a e')) (adapters d)"
    and "outcome (dispatch d e) =
      Promise_all (map (\<lambda>a. rethrow (send_error (name a)) (send a e')) (adapters d))"
  using assms by (simp_all add: dispatch_def Let_def comp_def)


lemma dispatch_failure_origin:
  assumes "resolution (runMiddleware (middlewareChain d) e) = Some (Some e')"
    and "outcome (dispatch d e) = Fails t m"
  shows "\<exists>a\<in>set (adapters d). \<exists>m'. send a e' = Fails t m' \<and> m = send_error (name a) m' \<and>
     (\<forall>b\<in>set (adapters d). \<forall>t' m''. send b e' = Fails t' m'' \<longrightarrow> t \<le> t')"
proof -
  let ?ps = "map (\<lambda>a. rethrow (send_error (name a)) (send a e')) (adapters d)"
  from assms have ff: "first_failure ?ps = Some (t, m)"
    by (simp add: dispatch_passed(2) Promise_all_Fails)
  then have "Fails t m \<in> set ?ps" by (rule first_failure_mem)
  then obtain a where a: "a \<in> set (adapters d)"
    and "rethrow (send_error (name a)) (send a e') = Fails t m" by auto
  then obtain m' where m': "send a e' = Fails t m'" "m = send_error (name a) m'"
    by (auto simp: rethrow_Fails)
  have "t \<le> t'" if b: "b \<in> set (adapters d)" and f: "send b e' = Fails t' m''" for b t' m''
  proof -
    from b f have "Fails t' (send_error (name b) m'') \<in> set ?ps"
      by (force simp: rethrow_def)
    with ff show ?thesis by (rule first_failure_least)
  qed
  with a m' show ?thesis by blast
qed

section \<open>What dispatch does to an event\<close>

text \<open>The equations that evaluate a chain and a dispatch on given middleware and adapters.\<close>

lemmas chain_eval =
  runMiddleware_def next_call.simps resolution_def Let_def forward_def decline_def twice_def

lemmas dispatch_eval =
  dispatch_def Promise_all_def rethrow_def ok_adapter_def bad_adapter_def send_error_def

text \<open>
  C1. A middleware that never calls its continuation should leave \<open>dispatch\<close> resolved
  with no adapter contacted, at any position of the chain. With the declining middleware in
  second place, behind one that forwards, no adapter is contacted but the promise of
  \<open>dispatch\<close> never settles: the timer callback only resolves when \<open>index === 0\<close>. In
  first place the same middleware is resolved as dropped. The filter of the tracker's tests,
  placed behind a forwarding middleware, leaves the dispatch of a logout event pending, and
  a batch holding such an event is never delivered, the login event in it included.
\<close>

theorem C1_later_decline_never_resolves:
  "outcome (dispatch \<lparr> adapters = [ok_adapter ''a'' 0], middlewareChain = [forward, decline] \<rparr>
      (ev ''auth'' ''login'')) = Never
   \<and> adapterCalls (dispatch \<lparr> adapters = [ok_adapter ''a'' 0],
        middlewareChain = [forward, decline] \<rparr> (ev ''auth'' ''login'')) = []
   \<and> outcome (dispatch \<lparr> adapters = [ok_adapter ''a'' 0], middlewareChain = [decline, forward] \<rparr>
      (ev ''auth'' ''login'')) = Ok 0
   \<and> outcome (dispatch \<lparr> adapters = [ok_adapter ''a'' 0],
        middlewareChain = [forward, drop_logout] \<rparr> (ev ''auth'' ''logout'')) = Never
   \<and> outcome (dispatchBatch \<lparr> adapters = [ok_adapter ''a'' 0],
        middlewareChain = [forward, drop_logout] \<rparr> [ev ''auth'' ''login'', ev ''auth'' ''logout''])
       = Never
   \<and> adapterCalls (dispatchBatch \<lparr> adapters = [ok_adapter ''a'' 0],
        middlewareChain = [forward, drop_logout] \<rparr> [ev ''auth'' ''login'', ev ''auth'' ''logout''])
       = []"
  by (simp add: chain_eval dispatch_eval dispatchBatch_def drop_logout_def ev_def)




text \<open>
  C5. When the chain passes an event on and the \<open>send\<close> of one adapter fails, every other
  adapter's \<open>send\<close> is still called in the same dispatch, and one that succeeds is
  recorded as having succeeded; every adapter is called exactly once.
\<close>

theorem C5_failure_does_not_stop_siblings:
  assumes "resolution (runMiddleware (middlewareChain d) e) = Some (Some e')"
    and "a \<in> set (adapters d)" and "send a e' = Fails t m"
    and "b \<in> set (adapters d)" and "send b e' = Ok t'"
  shows "(name b, Send e', Ok t') \<in> set (adapterCalls (dispatch d e))
     \<and> length (adapterCalls (dispatch d e)) = length (adapters d)"
proof -
  from assms(4,5) have "(name b, Send e', Ok t') \<in>
      set (map (\<lambda>a. (name a, Send e', send a e')) (adapters d))"
    by force
  then show ?thesis by (simp add: dispatch_passed(1) [OF assms(1)])
qed

theorem C5_failure_does_not_stop_siblings_witness:
  "(name (ok_adapter ''a'' 3), Send (ev ''auth'' ''login''), Ok 3)
      \<in> set (adapterCalls (dispatch fail_first (ev ''auth'' ''login'')))
   \<and> length (adapterCalls (dispatch fail_first (ev ''auth'' ''login''))) = length (adapters fail_first)"
proof -
  have h1: "resolution (runMiddleware (middlewareChain fail_first) (ev ''auth'' ''login''))
      = Some (Some (ev ''auth'' ''login''))"
    by (simp add: fail_first_def chain_eval)
  have h2: "bad_adapter ''b'' 0 ''x'' \<in> set (adapters fail_first)"
    and h4: "ok_adapter ''a'' 3 \<in> set (adapters fail_first)"
    by (simp_all add: fail_first_def)
  have h3: "send (bad_adapter ''b'' 0 ''x'') (ev ''auth'' ''login'') = Fails 0 ''x''"
    and h5: "send (ok_adapter ''a'' 3) (ev ''auth'' ''login'') = Ok 3"
    by (simp_all add: bad_adapter_def ok_adapter_def)
  show ?thesis by (rule C5_failure_does_not_stop_siblings [OF h1 h2 h3 h4 h5])
qed

text \<open>
  C2, as stated, fails. With adapters \<open>a\<close> (succeeding at tick 5), \<open>b\<close> (failing at tick 1)
  and \<open>c\<close> (failing at tick 2), the dispatch is rejected at tick 1 with the error of \<open>b\<close>
  alone: the error of \<open>c\<close> is not in the result, and the rejection comes before the
  \<open>send\<close> of \<open>a\<close> has completed.
\<close>

theorem C2_only_first_error_reported:
  "outcome (dispatch three_adapters (ev ''auth'' ''login'')) = Fails 1 (send_error ''b'' ''x'')
   \<and> send (bad_adapter ''c'' 2 ''y'') (ev ''auth'' ''login'') = Fails 2 ''y''
   \<and> send_error ''c'' ''y''
        \<notin> set (reported_errors (outcome (dispatch three_adapters (ev ''auth'' ''login''))))
   \<and> send (ok_adapter ''a'' 5) (ev ''auth'' ''login'') = Ok 5
   \<and> settle_time (outcome (dispatch three_adapters (ev ''auth'' ''login''))) < 5"
  by (simp add: three_adapters_def chain_eval dispatch_eval reported_errors_def)

text \<open>
  C2, amended. When the chain passes an event on, \<open>dispatch\<close> calls the \<open>send\<close> of every
  adapter. If it is fulfilled, every \<open>send\<close> has completed successfully by then, and it is
  fulfilled whenever all succeed. If one or more fail, it is rejected with exactly one
  error, that of the adapter whose \<open>send\<close> failed first (wrapped with the adapter's name),
  at the tick of that failure.
\<close>

theorem C2_dispatch_settles_with_first_failure:
  assumes "resolution (runMiddleware (middlewareChain d) e) = Some (Some e')"
  shows "adapterCalls (dispatch d e) = map (\<lambda>a. (name a, Send e', send a e')) (adapters d)
     \<and> (\<forall>T. outcome (dispatch d e) = Ok T \<longrightarrow> (\<forall>a\<in>set (adapters d). \<exists>t\<le>T. send a e' = Ok t))
     \<and> ((\<forall>a\<in>set (adapters d). \<exists>t. send a e' = Ok t) \<longrightarrow> (\<exists>T. outcome (dispatch d e) = Ok T))
     \<and> ((\<exists>a\<in>set (adapters d). \<exists>t m. send a e' = Fails t m) \<longrightarrow>
          (\<exists>b\<in>set (adapters d). \<exists>t m. send b e' = Fails t m
             \<and> outcome (dispatch d e) = Fails t (send_error (name b) m)
             \<and> reported_errors (outcome (dispatch d e)) = [send_error (name b) m]
             \<and> (\<forall>c\<in>set (adapters d). \<forall>t' m'. send c e' = Fails t' m' \<longrightarrow> t \<le> t')))"
proof (intro conjI allI impI ballI)
  let ?ps = "map (\<lambda>a. rethrow (send_error (name a)) (send a e')) (adapters d)"
  note out = dispatch_passed(2) [OF assms]
  show "adapterCalls (dispatch d e) = map (\<lambda>a. (name a, Send e', send a e')) (adapters d)"
    by (rule dispatch_passed(1) [OF assms])
  show "\<exists>t\<le>T. send a e' = Ok t" if "outcome (dispatch d e) = Ok T" and "a \<in> set (adapters d)"
    for T a
  proof -
    from that have "Promise_all ?ps = Ok T"
      and "rethrow (send_error (name a)) (send a e') \<in> set ?ps"
      by (simp_all add: out)
    from Promise_all_Ok [OF this] show ?thesis by (simp add: rethrow_Ok)
  qed
  show "\<exists>T. outcome (dispatch d e) = Ok T" if "\<forall>a\<in>set (adapters d). \<exists>t. send a e' = Ok t"
  proof -
    from that have "\<forall>p\<in>set ?ps. \<exists>t. p = Ok t" by (auto simp: rethrow_def)
    from Promise_all_all_Ok [OF this] show ?thesis by (simp add: out)
  qed
  show "\<exists>b\<in>set (adapters d). \<exists>t m. send b e' = Fails t m
             \<and> outcome (dispatch d e) = Fails t (send_error (name b) m)
             \<and> reported_errors (outcome (dispatch d e)) = [send_error (name b) m]
             \<and> (\<forall>c\<in>set (adapters d). \<forall>t' m'. send c e' = Fails t' m' \<longrightarrow> t \<le> t')"
    if "\<exists>a\<in>set (adapters d). \<exists>t m. send a e' = Fails t m"
  proof -
    from that obtain a t m where "a \<in> set (adapters d)" "send a e' = Fails t m" by blast
    then have "Fails t (send_error (name a) m) \<in> set ?ps" by (force simp: rethrow_def)
    then have "first_failure ?ps \<noteq> None" by (auto simp: first_failure_None)
    then obtain t0 m0 where "first_failure ?ps = Some (t0, m0)" by auto
    then have o: "outcome (dispatch d e) = Fails t0 m0"
      by (simp add: out Promise_all_Fails)
    from dispatch_failure_origin [OF assms o] o show ?thesis
      by (auto simp: reported_errors_def)
  qed
qed

theorem C2_dispatch_settles_with_first_failure_witness:
  "resolution (runMiddleware (middlewareChain three_adapters) (ev ''auth'' ''login''))
      = Some (Some (ev ''auth'' ''login''))
   \<and> bad_adapter ''c'' 2 ''y'' \<in> set (adapters three_adapters)
   \<and> send (bad_adapter ''c'' 2 ''y'') (ev ''auth'' ''login'') = Fails 2 ''y''
   \<and> (\<exists>b t m. b \<in> set (adapters three_adapters) \<and> send b (ev ''auth'' ''login'') = Fails t m
         \<and> outcome (dispatch three_adapters (ev ''auth'' ''login'')) = Fails t (send_error (name b) m)
         \<and> t \<le> 2)"
proof -
  have h: "resolution (runMiddleware (middlewareChain three_adapters) (ev ''auth'' ''login''))
      = Some (Some (ev ''auth'' ''login''))"
    by (simp add: three_adapters_def chain_eval)
  have c: "bad_adapter ''c'' 2 ''y'' \<in> set (adapters three_adapters)"
    by (simp add: three_adapters_def)
  have f: "send (bad_adapter ''c'' 2 ''y'') (ev ''auth'' ''login'') = Fails 2 ''y''"
    by (simp add: bad_adapter_def)
  from c f have ex: "\<exists>a\<in>set (adapters three_adapters). \<exists>t m.
      send a (ev ''auth'' ''login'') = Fails t m" by blast
  from C2_dispatch_settles_with_first_failure [OF h] ex
  obtain b t m where "b \<in> set (adapters three_adapters)"
    "send b (ev ''auth'' ''login'') = Fails t m"
    "outcome (dispatch three_adapters (ev ''auth'' ''login'')) = Fails t (send_error (name b) m)"
    "\<forall>c\<in>set (adapters three_adapters). \<forall>t' m'.
        send c (ev ''auth'' ''login'') = Fails t' m' \<longrightarrow> t \<le> t'"
    by blast
  with c f have "b \<in> set (adapters three_adapters) \<and> send b (ev ''auth'' ''login'') = Fails t m
     \<and> outcome (dispatch three_adapters (ev ''auth'' ''login'')) = Fails t (send_error (name b) m)
     \<and> t \<le> 2" by blast
  with h c f show ?thesis by blast
qed

section \<open>The tracker\<close>

text \<open>The equations that evaluate a tracker operation on a given configuration.\<close>

lemmas tracker_eval =
  emit_def dispatchEvent_def make_event_def createTracker_def sample_config_def login_def_def
  control_names_def new_ConsentManager_def base_state_def isAllowed_def getCategory_def
  new_EventQueue_def push_def flush_def timer_fire_def flush_promise_def onFlush_def
  discard_promise_def record_result_def dispatchBatch_def batch_task_def batch_error_def
  tracker_flush_def tracker_timer_def

lemma direct_eval:
  "emit failing_direct 7 ''auth'' ''login'' None =
     Some (failing_direct\<lparr> onErrorCalls := [(send_error ''a'' ''boom'', Some login_event)],
        adapterLog := [(''a'', Send login_event, Fails 0 ''boom'')] \<rparr>)"
  by (simp add: failing_direct_def login_event_def tracker_eval chain_eval dispatch_eval)

lemma batched_eval:
  "emit (failing_batched cfg_one) 7 ''auth'' ''login'' None =
     Some ((failing_batched cfg_one)\<lparr> unhandledRejections := [batch_error ''a'' ''boom''],
        adapterLog := [(''a'', Send login_event, Fails 0 ''boom'')] \<rparr>)"
  by (simp add: failing_batched_def cfg_one_def login_event_def tracker_eval chain_eval dispatch_eval)

lemma queued_eval:
  "emit (failing_batched cfg_default) 7 ''auth'' ''login'' None =
     Some ((failing_batched cfg_default)\<lparr> eventQueue :=
        Some \<lparr> queue = [login_event], timer = True, maxSize = 10, flushInterval = 5000 \<rparr> \<rparr>)"
  by (simp add: failing_batched_def cfg_default_def login_event_def tracker_eval chain_eval dispatch_eval)

text \<open>
  C3. Every destination failure should reach \<open>onError\<close>, on the direct path and on the
  batched path alike. With one adapter whose \<open>send\<close> throws: on the direct path the
  failure reaches \<open>onError\<close>, with the event. With the queue enabled it never does: after
  a size-triggered flush (\<open>maxSize = 1\<close>) and after a timer-driven flush the rejection of
  \<open>dispatchBatch\<close> is an unhandled rejection, and after \<open>tracker.flush()\<close> it is the
  result handed to the caller; \<open>onError\<close> is not called in any of the three.
\<close>

theorem C3_batched_failure_bypasses_onError:
  "map_option effects (emit failing_direct 7 ''auth'' ''login'' None)
     = Some ([(send_error ''a'' ''boom'', Some login_event)], [])
   \<and> map_option effects (emit (failing_batched cfg_one) 7 ''auth'' ''login'' None)
     = Some ([], [batch_error ''a'' ''boom''])
   \<and> effects (tracker_timer (the (emit (failing_batched cfg_default) 7 ''auth'' ''login'' None)))
     = ([], [batch_error ''a'' ''boom''])
   \<and> snd (tracker_flush (the (emit (failing_batched cfg_default) 7 ''auth'' ''login'' None)))
     = Fails 0 (batch_error ''a'' ''boom'')
   \<and> effects (fst (tracker_flush (the (emit (failing_batched cfg_default) 7 ''auth'' ''login'' None))))
     = ([], [])"
proof (intro conjI)
  show "map_option effects (emit failing_direct 7 ''auth'' ''login'' None)
     = Some ([(send_error ''a'' ''boom'', Some login_event)], [])"
    by (simp add: direct_eval effects_def) (simp add: failing_direct_def createTracker_def)
  show "map_option effects (emit (failing_batched cfg_one) 7 ''auth'' ''login'' None)
     = Some ([], [batch_error ''a'' ''boom''])"
    by (simp add: batched_eval effects_def) (simp add: failing_batched_def createTracker_def)
  let ?t = "(failing_batched cfg_default)\<lparr> eventQueue :=
        Some \<lparr> queue = [login_event], timer = True, maxSize = 10, flushInterval = 5000 \<rparr> \<rparr>"
  have t: "the (emit (failing_batched cfg_default) 7 ''auth'' ''login'' None) = ?t"
    by (simp add: queued_eval)
  show "effects (tracker_timer (the (emit (failing_batched cfg_default) 7 ''auth'' ''login'' None)))
     = ([], [batch_error ''a'' ''boom''])"
    unfolding t
    by (simp add: effects_def failing_batched_def login_event_def tracker_eval chain_eval
        dispatch_eval)
  show "snd (tracker_flush (the (emit (failing_batched cfg_default) 7 ''auth'' ''login'' None)))
     = Fails 0 (batch_error ''a'' ''boom'')"
    unfolding t
    by (simp add: effects_def failing_batched_def login_event_def tracker_eval chain_eval
        dispatch_eval)
  show "effects (fst (tracker_flush (the (emit (failing_batched cfg_default) 7 ''auth'' ''login'' None))))
     = ([], [])"
    unfolding t
    by (simp add: effects_def failing_batched_def login_event_def tracker_eval chain_eval
        dispatch_eval)
qed

text \<open>
  C7. When consent denies the event that \<open>dispatchEvent\<close> builds, the tracker is left
  exactly as it was: nothing is added to the queue, no middleware is invoked, no adapter is
  called, \<open>onError\<close> is not called and no rejection is raised; the same holds for the
  method call that reaches \<open>dispatchEvent\<close> through the catalog.
\<close>

theorem C7_denied_event_is_dropped_silently:
  assumes "\<not> isAllowed (consentManager t) (make_event t now k a n p)"
  shows "dispatchEvent t now k a n p = t
     \<and> eventQueue (dispatchEvent t now k a n p) = eventQueue t
     \<and> middlewareLog (dispatchEvent t now k a n p) = middlewareLog t
     \<and> adapterLog (dispatchEvent t now k a n p) = adapterLog t
     \<and> onErrorCalls (dispatchEvent t now k a n p) = onErrorCalls t
     \<and> unhandledRejections (dispatchEvent t now k a n p) = unhandledRejections t
     \<and> (a \<notin> set control_names \<and> events t a = Some evs \<and> evs n = Some d \<and> tkey d = k
          \<and> buildPayload d params = Inr p \<longrightarrow> emit t now a n params = Some t)"
proof -
  from assms have "dispatchEvent t now k a n p = t"
    by (simp add: dispatchEvent_def Let_def)
  then show ?thesis by (auto simp: emit_def)
qed

theorem C7_denied_event_is_dropped_silently_witness:
  "\<not> isAllowed (consentManager denied_tracker)
       (make_event denied_tracker 7 ''auth::login'' ''auth'' ''login'' [])
   \<and> dispatchEvent denied_tracker 7 ''auth::login'' ''auth'' ''login'' [] = denied_tracker
   \<and> emit denied_tracker 7 ''auth'' ''login'' None = Some denied_tracker"
proof -
  have h: "\<not> isAllowed (consentManager denied_tracker)
       (make_event denied_tracker 7 ''auth::login'' ''auth'' ''login'' [])"
    by (simp add: denied_tracker_def setConsent_def update_def tracker_eval)
  have c: "''auth'' \<notin> set control_names \<and>
      events denied_tracker ''auth'' = Some [''login'' \<mapsto> login_def] \<and>
      [''login'' \<mapsto> login_def] ''login'' = Some login_def \<and> tkey login_def = ''auth::login'' \<and>
      buildPayload login_def None = Inr []"
    by (simp add: denied_tracker_def setConsent_def update_def createTracker_def sample_config_def
        login_def_def control_names_def)
  from C7_denied_event_is_dropped_silently [OF h, of "[''login'' \<mapsto> login_def]" login_def None] c
  have "dispatchEvent denied_tracker 7 ''auth::login'' ''auth'' ''login'' [] = denied_tracker"
    and "emit denied_tracker 7 ''auth'' ''login'' None = Some denied_tracker"
    by blast+
  with h show ?thesis by blast
qed

lemma allowed_event_is_delivered:
  "map_option adapterLog
     (emit (createTracker (sample_config [ok_adapter ''a'' 0] [forward] None)) 7 ''auth'' ''login'' None)
   = Some [(''a'', Send login_event, Ok 0)]"
  by (simp add: login_event_def tracker_eval chain_eval dispatch_eval)

section \<open>Timestamps through the chain\<close>






section \<open>Timestamps downstream of creation\<close>
















end
